theory Spec2Isabelle
  imports Complex_Main
begin

section \<open>Data model of \<open>pde.ts\<close>\<close>

text \<open>
  The heat grid is a JavaScript array of arrays of numbers, \<open>number[][]\<close>, indexed
  \<open>heatGrid[row][col]\<close>. It is modelled as a list of rows. JavaScript numbers are IEEE
  doubles; they are idealised here as real numbers, so rounding, overflow to Infinity and
  underflow to zero are outside the model, except in the second model of
  \<open>initializeHeatGrid\<close> below, which keeps the underflow. The one non-number that the code can meet while
  its inputs are numbers is \<open>undefined\<close>, read from an index past the end of a row. Such
  a read is modelled by \<open>None\<close>; arithmetic on it yields NaN in the source, which is
  again \<open>None\<close> here.
\<close>

type_synonym grid = "real list list"

text \<open>The type \<open>"zeros" | "exp"\<close> of the parameter \<open>method\<close>.\<close>

datatype initMethod = Zeros | Exp

text \<open>
  The strings thrown by the source, one constructor each, and \<open>TypeError\<close> for a property
  read on \<open>undefined\<close> (\<open>heatGrid[0].length\<close> on an empty array). \<open>NaNWritten\<close> marks
  a run in which the source stores NaN in the grid, which a grid of reals cannot hold.
\<close>

datatype error =
    InvalidRowOrColumnCount
  | GridLargerThanCanvas
  | MismatchInCanvasAndGridSizes
  | TypeError
  | NaNWritten

text \<open>\<open>heatGrid[i][j]\<close> as an expression: \<open>None\<close> is \<open>undefined\<close>.\<close>

definition getCell :: "grid \<Rightarrow> nat \<Rightarrow> nat \<Rightarrow> real option" where
  "getCell g i j = (if i < length g \<and> j < length (g ! i) then Some (g ! i ! j) else None)"

text \<open>
  \<open>heatGrid[i][j] = v\<close> for an existing row \<open>i\<close>: an index inside the row overwrites,
  the index just past the end extends the row by one element (JavaScript arrays grow on
  assignment).
\<close>

definition setCell :: "grid \<Rightarrow> nat \<Rightarrow> nat \<Rightarrow> real \<Rightarrow> grid" where
  "setCell g i j v =
     (if j < length (g ! i) then g[i := (g ! i)[j := v]] else g[i := (g ! i) @ [v]])"

section \<open>\<open>initializeHeatGrid\<close>\<close>

text \<open>The loop of lines 11 to 17: each row is built by pushing \<open>cols\<close> zeros.\<close>

definition zeroRow :: "nat \<Rightarrow> real list" where
  "zeroRow cols = fold (\<lambda>j row. row @ [0]) [0..<cols] []"

definition zeroGrid :: "nat \<Rightarrow> nat \<Rightarrow> grid" where
  "zeroGrid rows cols = fold (\<lambda>i heatGrid. heatGrid @ [zeroRow cols]) [0..<rows] []"

text \<open>\<open>(i-midY)**2 + (j-midX)**2\<close> with \<open>midX = Math.floor(cols / 2)\<close>.\<close>

definition sqDist :: "nat \<Rightarrow> nat \<Rightarrow> nat \<Rightarrow> nat \<Rightarrow> int" where
  "sqDist rows cols i j =
     (let midX = int cols div 2; midY = int rows div 2
      in (int i - midY)\<^sup>2 + (int j - midX)\<^sup>2)"

text \<open>The loop of lines 23 to 28.\<close>

definition expCell :: "nat \<Rightarrow> nat \<Rightarrow> real \<Rightarrow> real \<Rightarrow> nat \<Rightarrow> nat \<Rightarrow> grid \<Rightarrow> grid" where
  "expCell rows cols beta alpha i j heatGrid =
     setCell heatGrid i j (alpha * exp (- beta * real_of_int (sqDist rows cols i j)))"

definition expFill :: "nat \<Rightarrow> nat \<Rightarrow> real \<Rightarrow> real \<Rightarrow> grid \<Rightarrow> grid" where
  "expFill rows cols beta alpha heatGrid =
     fold (\<lambda>i g. fold (\<lambda>j g'. expCell rows cols beta alpha i j g') [0..<cols] g)
       [0..<rows] heatGrid"

text \<open>
  \<open>rows\<close> and \<open>cols\<close> are counts that the caller computes with \<open>Math.floor\<close>; they are
  integers here, possibly negative or zero. \<open>beta\<close> and \<open>alpha\<close> are passed explicitly; the
  source defaults them to 0.0001 and 255.
\<close>

definition initializeHeatGrid :: "int \<Rightarrow> int \<Rightarrow> initMethod \<Rightarrow> real \<Rightarrow> real \<Rightarrow> error + grid" where
  "initializeHeatGrid rows cols method beta alpha =
     (if rows \<le> 0 \<or> rows > 1080 \<or> cols \<le> 0 \<or> cols > 1920 then Inl InvalidRowOrColumnCount
      else
        let heatGrid = zeroGrid (nat rows) (nat cols)
        in Inr (if method = Exp then expFill (nat rows) (nat cols) beta alpha heatGrid
                else heatGrid))"







section \<open>\<open>canvasXYToGridXY\<close>\<close>

text \<open>
  The pointer position is a pair of numbers (a difference of client coordinates, which
  may be fractional); \<open>scale\<close> is a pixel count. For \<open>scale = 0\<close> the source divides by
  zero and returns NaN or an infinity in each component: \<open>None\<close>.
\<close>

definition canvasXYToGridXY :: "real \<Rightarrow> real \<Rightarrow> nat \<Rightarrow> (int \<times> int) option" where
  "canvasXYToGridXY canvasX canvasY scale =
     (if scale = 0 then None
      else
        let gridX = \<lfloor>(canvasX - 1) / real scale\<rfloor>;
            gridY = \<lfloor>(canvasY - 1) / real scale\<rfloor>
        in Some (gridX, gridY))"

section \<open>\<open>heatDissipationTimeStep\<close>\<close>

text \<open>
  Line 50, \<open>gamma*(a + b + c + d + 4*e) - e\<close>: NaN (\<open>None\<close>) as soon as one operand is
  \<open>undefined\<close>.
\<close>

definition rawTemp ::
  "real \<Rightarrow> real option \<Rightarrow> real option \<Rightarrow> real option \<Rightarrow> real option \<Rightarrow> real option
     \<Rightarrow> real option" where
  "rawTemp gamma a b c d e =
     (case (a, b, c, d, e) of
        (Some a', Some b', Some c', Some d', Some e') \<Rightarrow>
          Some (gamma * (a' + b' + c' + d' + 4 * e') - e')
      | _ \<Rightarrow> None)"

text \<open>Line 51, \<open>temp >= 0 ? temp : 0\<close>: the comparison is false on NaN.\<close>

definition clampTemp :: "real option \<Rightarrow> real" where
  "clampTemp temp = (case temp of Some t \<Rightarrow> (if t \<ge> 0 then t else 0) | None \<Rightarrow> 0)"

text \<open>
  The body of the inner loop, lines 44 to 52. It reads the four neighbours and the cell
  from the grid as it is at that moment, and writes the cell back into the same grid.
\<close>

definition stepCell :: "real \<Rightarrow> nat \<Rightarrow> nat \<Rightarrow> nat \<Rightarrow> nat \<Rightarrow> grid \<Rightarrow> grid" where
  "stepCell gamma rows cols i j heatGrid =
     (let a = (if 1 \<le> i then getCell heatGrid (i - 1) j else Some 0);
          b = (if i + 1 < rows then getCell heatGrid (i + 1) j else Some 0);
          c = (if 1 \<le> j then getCell heatGrid i (j - 1) else Some 0);
          d = (if j + 1 < cols then getCell heatGrid i (j + 1) else Some 0);
          e = getCell heatGrid i j;
          temp = rawTemp gamma a b c d e
      in setCell heatGrid i j (clampTemp temp))"

definition stepRow :: "real \<Rightarrow> nat \<Rightarrow> nat \<Rightarrow> nat \<Rightarrow> grid \<Rightarrow> grid" where
  "stepRow gamma rows cols i heatGrid =
     fold (\<lambda>j g. stepCell gamma rows cols i j g) [0..<cols] heatGrid"

definition stepRows :: "real \<Rightarrow> nat \<Rightarrow> nat \<Rightarrow> grid \<Rightarrow> grid" where
  "stepRows gamma rows cols heatGrid =
     fold (\<lambda>i g. stepRow gamma rows cols i g) [0..<rows] heatGrid"

text \<open>
  The function mutates its argument; the model returns the grid after the call.
  \<open>heatGrid[0].length\<close> throws a TypeError on an empty array.
\<close>

definition heatDissipationTimeStep :: "grid \<Rightarrow> real \<Rightarrow> error + grid" where
  "heatDissipationTimeStep heatGrid gamma =
     (case heatGrid of
        [] \<Rightarrow> Inl TypeError
      | row0 # _ \<Rightarrow>
          let rows = length heatGrid; cols = length row0
          in Inr (stepRows gamma rows cols heatGrid))"

section \<open>\<open>drawHeatGrid\<close>\<close>

text \<open>
  \<open>imageData.data\<close> is a \<open>Uint8ClampedArray\<close>: a store converts the number with
  ToUint8Clamp (NaN becomes 0, the value is clamped to 0..255 and rounded to the nearest
  integer, ties to even), and a store past the end is ignored.
\<close>

definition toUint8Clamp :: "real option \<Rightarrow> nat" where
  "toUint8Clamp v =
     (case v of
        None \<Rightarrow> 0
      | Some x \<Rightarrow>
          let clamped = min (max x 0) 255; f = \<lfloor>clamped\<rfloor>
          in nat (if clamped < real_of_int f + 1 / 2 then f
                  else if clamped > real_of_int f + 1 / 2 then f + 1
                  else if even f then f else f + 1))"

text \<open>Lines 95 to 100 (and 111 to 116): the four channel stores of one pixel.\<close>

definition putPixel :: "nat list \<Rightarrow> nat \<Rightarrow> real option \<Rightarrow> nat list" where
  "putPixel data redIndex heat =
     data[redIndex := toUint8Clamp heat,
          redIndex + 1 := toUint8Clamp (map_option (\<lambda>h. (2 / 10) * h) heat),
          redIndex + 2 := 15,
          redIndex + 3 := 255]"

text \<open>The two innermost loops, over the pixel rows \<open>ys\<close> and pixel columns \<open>xs\<close>.\<close>

definition fillBlock ::
  "grid \<Rightarrow> nat \<Rightarrow> nat \<Rightarrow> nat \<Rightarrow> nat list \<Rightarrow> nat list \<Rightarrow> nat list \<Rightarrow> nat list" where
  "fillBlock heatGrid canvasSizeX row col ys xs data =
     fold (\<lambda>y d. fold (\<lambda>x d'.
             let redIndex = y * canvasSizeX * 4 + x * 4;
                 heat = getCell heatGrid row col
             in putPixel d' redIndex heat) xs d) ys data"

text \<open>Lines 91 to 104.\<close>

definition drawFullCells ::
  "grid \<Rightarrow> nat \<Rightarrow> nat \<Rightarrow> nat \<Rightarrow> nat \<Rightarrow> nat list \<Rightarrow> nat list" where
  "drawFullCells heatGrid canvasSizeX scale fullCellsX fullCellsY data =
     fold (\<lambda>row d. fold (\<lambda>col d'.
             fillBlock heatGrid canvasSizeX row col
               [row * scale..<(row + 1) * scale] [col * scale..<(col + 1) * scale] d')
           [0..<fullCellsX] d)
       [0..<fullCellsY] data"

text \<open>Lines 107 to 120.\<close>

definition drawRemainder ::
  "grid \<Rightarrow> nat \<Rightarrow> nat \<Rightarrow> nat \<Rightarrow> nat \<Rightarrow> nat \<Rightarrow> nat \<Rightarrow> nat \<Rightarrow> nat list \<Rightarrow> nat list" where
  "drawRemainder heatGrid canvasSizeX canvasSizeY gridSizeX gridSizeY scale fullCellsX fullCellsY data =
     fold (\<lambda>row d. fold (\<lambda>col d'.
             fillBlock heatGrid canvasSizeX row col
               [row * scale..<canvasSizeY] [col * scale..<canvasSizeX] d')
           [fullCellsX * scale..<gridSizeX] d)
       [fullCellsY * scale..<gridSizeY] data"

text \<open>
  \<open>canvasSizeX\<close> and \<open>canvasSizeY\<close> are \<open>canvas.width\<close> and \<open>canvas.height\<close>, \<open>data\<close> is
  \<open>imageData.data\<close> before the call; the result is \<open>imageData.data\<close> after it, which
  \<open>ctx.putImageData\<close> then shows. The \<open>alert\<close> before each \<open>throw\<close> is not modelled.
  With \<open>scale = 0\<close> the source computes \<open>Math.floor(canvasSizeX / 0)\<close>, an infinity or
  NaN, which differs from every array length, so the second check throws.
\<close>

definition drawHeatGrid :: "nat \<Rightarrow> nat \<Rightarrow> nat list \<Rightarrow> grid \<Rightarrow> nat \<Rightarrow> error + nat list" where
  "drawHeatGrid canvasSizeX canvasSizeY data heatGrid scale =
     (case heatGrid of
        [] \<Rightarrow> Inl TypeError
      | row0 # _ \<Rightarrow>
          let gridSizeX = length row0; gridSizeY = length heatGrid
          in if gridSizeX > canvasSizeX \<or> gridSizeY > canvasSizeY then Inl GridLargerThanCanvas
             else if scale = 0 then Inl MismatchInCanvasAndGridSizes
             else
               let fullCellsX = canvasSizeX div scale;
                   fullCellsY = canvasSizeY div scale;
                   remainderX = canvasSizeX mod scale;
                   remainderY = canvasSizeY mod scale;
                   totalCellsX = (if remainderX = 0 then fullCellsX else fullCellsX + 1);
                   totalCellsY = (if remainderY = 0 then fullCellsY else fullCellsY + 1)
               in if totalCellsX \<noteq> gridSizeX \<or> totalCellsY \<noteq> gridSizeY
                  then Inl MismatchInCanvasAndGridSizes
                  else Inr (drawRemainder heatGrid canvasSizeX canvasSizeY gridSizeX gridSizeY
                              scale fullCellsX fullCellsY
                              (drawFullCells heatGrid canvasSizeX scale fullCellsX fullCellsY data)))"

section \<open>Adding heat at the pointer, lines 248 to 266\<close>

text \<open>
  \<open>heatGrid[y][x] += heat\<close>. A missing row makes the source throw a TypeError; a missing
  cell in an existing row makes it store NaN.
\<close>

definition addCell :: "grid \<Rightarrow> nat \<Rightarrow> nat \<Rightarrow> real \<Rightarrow> error + grid" where
  "addCell heatGrid y x heat =
     (if length heatGrid \<le> y then Inl TypeError
      else case getCell heatGrid y x of
             None \<Rightarrow> Inl NaNWritten
           | Some v \<Rightarrow> Inr (setCell heatGrid y x (v + heat)))"

definition thenE :: "error + 'a \<Rightarrow> ('a \<Rightarrow> error + 'b) \<Rightarrow> error + 'b" where
  "thenE r f = (case r of Inl e \<Rightarrow> Inl e | Inr v \<Rightarrow> f v)"

text \<open>
  \<open>rows\<close> and \<open>cols\<close> are the variables of the enclosing closure, which the program keeps
  equal to the dimensions of \<open>heatGrid\<close>; \<open>gridX\<close> and \<open>gridY\<close> are the integers returned
  by \<open>canvasXYToGridXY\<close>.
\<close>

definition addHeatOnMouseClick :: "int \<Rightarrow> int \<Rightarrow> grid \<Rightarrow> int \<Rightarrow> int \<Rightarrow> real \<Rightarrow> error + grid" where
  "addHeatOnMouseClick rows cols heatGrid gridX gridY heat =
     (if gridX \<ge> 0 \<and> gridX < cols \<and> gridY \<ge> 0 \<and> gridY < rows then
        thenE (addCell heatGrid (nat gridY) (nat gridX) heat) (\<lambda>g1.
        thenE (if gridX > 0 then addCell g1 (nat gridY) (nat (gridX - 1)) heat else Inr g1) (\<lambda>g2.
        thenE (if gridX < cols - 1 then addCell g2 (nat gridY) (nat (gridX + 1)) heat else Inr g2) (\<lambda>g3.
        thenE (if gridY > 0 then addCell g3 (nat (gridY - 1)) (nat gridX) heat else Inr g3) (\<lambda>g4.
        if gridY < rows - 1 then addCell g4 (nat (gridY + 1)) (nat gridX) heat else Inr g4))))
      else Inr heatGrid)"

section \<open>Notions used to state the properties\<close>

text \<open>A grid of \<open>rows\<close> rows with \<open>cols\<close> cells each, as \<open>initializeHeatGrid\<close> builds it.\<close>

definition rect :: "grid \<Rightarrow> nat \<Rightarrow> nat \<Rightarrow> bool" where
  "rect g rows cols \<longleftrightarrow> length g = rows \<and> (\<forall>r \<in> set g. length r = cols)"

text \<open>The clamped five-point expression on plain numbers.\<close>

definition stencil :: "real \<Rightarrow> real \<Rightarrow> real \<Rightarrow> real \<Rightarrow> real \<Rightarrow> real \<Rightarrow> real" where
  "stencil gamma up down left right center =
     max 0 (gamma * (up + down + left + right + 4 * center) - center)"

text \<open>
  The new value of cell \<open>(i, j)\<close> as the specification words it: all five values are
  read from the grid \<open>old\<close> as it was before the step, and a neighbour outside the grid
  counts as 0.
\<close>

definition snapshotCell :: "real \<Rightarrow> grid \<Rightarrow> nat \<Rightarrow> nat \<Rightarrow> real" where
  "snapshotCell gamma old i j =
     stencil gamma
       (if 1 \<le> i then old ! (i - 1) ! j else 0)
       (if i + 1 < length old then old ! (i + 1) ! j else 0)
       (if 1 \<le> j then old ! i ! (j - 1) else 0)
       (if j + 1 < length (old ! i) then old ! i ! (j + 1) else 0)
       (old ! i ! j)"

text \<open>
  The same expression where the upper and the left neighbour are read from the grid
  \<open>new\<close> after the step, and the lower neighbour, the right neighbour and the cell itself
  from the grid \<open>old\<close> before it.
\<close>

definition inPlaceCell :: "real \<Rightarrow> grid \<Rightarrow> grid \<Rightarrow> nat \<Rightarrow> nat \<Rightarrow> real" where
  "inPlaceCell gamma old new i j =
     stencil gamma
       (if 1 \<le> i then new ! (i - 1) ! j else 0)
       (if i + 1 < length old then old ! (i + 1) ! j else 0)
       (if 1 \<le> j then new ! i ! (j - 1) else 0)
       (if j + 1 < length (old ! i) then old ! i ! (j + 1) else 0)
       (old ! i ! j)"

text \<open>
  Loop invariants of the step. Inside row \<open>i\<close>, started on grid \<open>h\<close>, after the cells
  before column \<open>k\<close>: nothing else has changed, and each cell done holds the stencil of its
  new left neighbour and the old values around it.
\<close>

definition rowInv :: "real \<Rightarrow> nat \<Rightarrow> nat \<Rightarrow> grid \<Rightarrow> nat \<Rightarrow> nat \<Rightarrow> grid \<Rightarrow> bool" where
  "rowInv gamma rows cols h i k t \<longleftrightarrow>
     rect t rows cols
     \<and> (\<forall>i' < rows. \<forall>j' < cols. (i' \<noteq> i \<or> k \<le> j') \<longrightarrow> t ! i' ! j' = h ! i' ! j')
     \<and> (\<forall>j' < k. t ! i ! j' =
          stencil gamma
            (if 1 \<le> i then h ! (i - 1) ! j' else 0)
            (if i + 1 < rows then h ! (i + 1) ! j' else 0)
            (if 1 \<le> j' then t ! i ! (j' - 1) else 0)
            (if j' + 1 < cols then h ! i ! (j' + 1) else 0)
            (h ! i ! j'))"

text \<open>After the rows before \<open>m\<close>, started on grid \<open>g\<close>.\<close>

definition gridInv :: "real \<Rightarrow> nat \<Rightarrow> nat \<Rightarrow> grid \<Rightarrow> nat \<Rightarrow> grid \<Rightarrow> bool" where
  "gridInv gamma rows cols g m s \<longleftrightarrow>
     rect s rows cols
     \<and> (\<forall>i < rows. \<forall>j < cols. m \<le> i \<longrightarrow> s ! i ! j = g ! i ! j)
     \<and> (\<forall>i < m. \<forall>j < cols. s ! i ! j = inPlaceCell gamma g s i j)"

text \<open>
  The specification's count of cells along one axis of the target: \<open>floor(W/scale)\<close>, plus
  one if \<open>W\<close> is not a multiple of \<open>scale\<close>.
\<close>

definition totalCells :: "nat \<Rightarrow> nat \<Rightarrow> nat" where
  "totalCells extent scale = extent div scale + (if extent mod scale \<noteq> 0 then 1 else 0)"

text \<open>
  The specification has one error kind for a target that does not reconcile with the grid;
  it covers both strings thrown by \<open>drawHeatGrid\<close>.
\<close>

definition isGridTargetMismatch :: "error \<Rightarrow> bool" where
  "isGridTargetMismatch e \<longleftrightarrow> e = GridLargerThanCanvas \<or> e = MismatchInCanvasAndGridSizes"

text \<open>
  Cell \<open>(i, j)\<close> is the cell \<open>(gridY, gridX)\<close> or one of its four cardinal neighbours.
\<close>

definition inCross :: "int \<Rightarrow> int \<Rightarrow> nat \<Rightarrow> nat \<Rightarrow> bool" where
  "inCross gridY gridX i j \<longleftrightarrow> \<bar>int i - gridY\<bar> + \<bar>int j - gridX\<bar> \<le> 1"

text \<open>The cells of a \<open>rows\<close> by \<open>cols\<close> grid whose value went up by exactly \<open>heat\<close>.\<close>

definition increasedCells :: "grid \<Rightarrow> grid \<Rightarrow> real \<Rightarrow> nat \<Rightarrow> nat \<Rightarrow> (nat \<times> nat) set" where
  "increasedCells old new heat rows cols =
     set (filter (\<lambda>(i, j). new ! i ! j = old ! i ! j + heat)
            (List.product [0..<rows] [0..<cols]))"

definition isInterior :: "int \<Rightarrow> int \<Rightarrow> int \<Rightarrow> int \<Rightarrow> bool" where
  "isInterior rows cols gridY gridX \<longleftrightarrow>
     0 < gridY \<and> gridY < rows - 1 \<and> 0 < gridX \<and> gridX < cols - 1"

definition isCorner :: "int \<Rightarrow> int \<Rightarrow> int \<Rightarrow> int \<Rightarrow> bool" where
  "isCorner rows cols gridY gridX \<longleftrightarrow>
     0 < rows \<and> 0 < cols \<and> (gridY = 0 \<or> gridY = rows - 1) \<and> (gridX = 0 \<or> gridX = cols - 1)"

text \<open>\<open>heatGrid[y][x] += heat\<close> on a cell that exists.\<close>

definition bump :: "nat \<Rightarrow> nat \<Rightarrow> real \<Rightarrow> grid \<Rightarrow> grid" where
  "bump y x heat g = setCell g y x (g ! y ! x + heat)"


text \<open>
  The byte that \<open>putPixel\<close> stores in channel \<open>c\<close> of a pixel (0 red, 1 green, 2 blue,
  3 alpha) for the temperature \<open>heat\<close>.
\<close>

definition channel :: "real option \<Rightarrow> nat \<Rightarrow> nat" where
  "channel heat c =
     (if c = 0 then toUint8Clamp heat
      else if c = 1 then toUint8Clamp (map_option (\<lambda>h. (2 / 10) * h) heat)
      else if c = 2 then 15 else 255)"

section \<open>Loops and cells\<close>

text \<open>A counting loop \<open>for (k = 0; k < n; k++)\<close> keeps an invariant indexed by \<open>k\<close>.\<close>

lemma fold_upt_invariant:
  assumes "P 0 s" and "\<And>k t. k < n \<Longrightarrow> P k t \<Longrightarrow> P (Suc k) (f k t)"
  shows "P n (fold f [0..<n] s)"
proof -
  have "m \<le> n \<Longrightarrow> P m (fold f [0..<m] s)" for m
  proof (induction m)
    case 0
    show ?case using assms(1) by simp
  next
    case (Suc m)
    then show ?case using assms(2) [of m] by simp
  qed
  then show ?thesis by simp
qed

lemma rect_nth: "rect g rows cols \<Longrightarrow> i < rows \<Longrightarrow> length (g ! i) = cols"
  by (simp add: rect_def)

lemma rect_length: "rect g rows cols \<Longrightarrow> length g = rows"
  by (simp add: rect_def)

lemma getCell_rect: "rect g rows cols \<Longrightarrow> i < rows \<Longrightarrow> j < cols \<Longrightarrow> getCell g i j = Some (g ! i ! j)"
  by (simp add: getCell_def rect_def)

lemma setCell_rect: "rect g rows cols \<Longrightarrow> i < rows \<Longrightarrow> j < cols \<Longrightarrow> rect (setCell g i j v) rows cols"
  by (auto simp: setCell_def rect_def dest!: set_update_subset_insert [THEN subsetD])

lemma setCell_nth:
  "rect g rows cols \<Longrightarrow> i < rows \<Longrightarrow> j < cols \<Longrightarrow> i' < rows \<Longrightarrow> j' < cols \<Longrightarrow>
   setCell g i j v ! i' ! j' = (if i' = i \<and> j' = j then v else g ! i' ! j')"
  by (auto simp: setCell_def rect_def nth_list_update)

section \<open>The in-place pass of \<open>heatDissipationTimeStep\<close>\<close>

lemma stepCell_rect:
  "rect g rows cols \<Longrightarrow> i < rows \<Longrightarrow> j < cols \<Longrightarrow> rect (stepCell gamma rows cols i j g) rows cols"
  by (simp add: stepCell_def Let_def setCell_rect)

lemma stepCell_nth:
  assumes "rect g rows cols" "i < rows" "j < cols" "i' < rows" "j' < cols"
  shows "stepCell gamma rows cols i j g ! i' ! j' =
           (if i' = i \<and> j' = j then inPlaceCell gamma g g i j else g ! i' ! j')"
proof -
  have l: "length g = rows" "length (g ! i) = cols"
    using assms by (simp_all add: rect_def)
  show ?thesis
    using assms
    by (simp add: stepCell_def Let_def setCell_nth getCell_rect rawTemp_def clampTemp_def
        inPlaceCell_def stencil_def l max_def)
qed

lemma rowInv_start: "rect h rows cols \<Longrightarrow> rowInv gamma rows cols h i 0 h"
  by (simp add: rowInv_def)

lemma rowInv_step:
  assumes inv: "rowInv gamma rows cols h i k t" and i: "i < rows" and kc: "k < cols"
  shows "rowInv gamma rows cols h i (Suc k) (stepCell gamma rows cols i k t)"
proof -
  let ?t' = "stepCell gamma rows cols i k t"
  from inv have rt: "rect t rows cols"
    and same: "\<And>i' j'. i' < rows \<Longrightarrow> j' < cols \<Longrightarrow> i' \<noteq> i \<or> k \<le> j' \<Longrightarrow> t ! i' ! j' = h ! i' ! j'"
    and fin: "\<And>j'. j' < k \<Longrightarrow> t ! i ! j' =
          stencil gamma (if 1 \<le> i then h ! (i - 1) ! j' else 0)
           (if i + 1 < rows then h ! (i + 1) ! j' else 0)
           (if 1 \<le> j' then t ! i ! (j' - 1) else 0)
           (if j' + 1 < cols then h ! i ! (j' + 1) else 0) (h ! i ! j')"
    by (simp_all add: rowInv_def)
  have lt: "length t = rows" "length (t ! i) = cols"
    using rt i by (simp_all add: rect_def)
  have nth': "\<And>i' j'. i' < rows \<Longrightarrow> j' < cols \<Longrightarrow>
      ?t' ! i' ! j' = (if i' = i \<and> j' = k then inPlaceCell gamma t t i k else t ! i' ! j')"
    using stepCell_nth [OF rt i kc] by simp
  have r': "rect ?t' rows cols" using rt i kc by (rule stepCell_rect)
  have same': "\<forall>i'<rows. \<forall>j'<cols. i' \<noteq> i \<or> Suc k \<le> j' \<longrightarrow> ?t' ! i' ! j' = h ! i' ! j'"
    using same by (auto simp: nth')
  have new: "inPlaceCell gamma t t i k =
          stencil gamma (if 1 \<le> i then h ! (i - 1) ! k else 0)
           (if i + 1 < rows then h ! (i + 1) ! k else 0)
           (if 1 \<le> k then t ! i ! (k - 1) else 0)
           (if k + 1 < cols then h ! i ! (k + 1) else 0) (h ! i ! k)"
    using i kc by (simp add: inPlaceCell_def lt same)
  have fin': "?t' ! i ! j' =
          stencil gamma (if 1 \<le> i then h ! (i - 1) ! j' else 0)
           (if i + 1 < rows then h ! (i + 1) ! j' else 0)
           (if 1 \<le> j' then ?t' ! i ! (j' - 1) else 0)
           (if j' + 1 < cols then h ! i ! (j' + 1) else 0) (h ! i ! j')"
    if j': "j' < Suc k" for j'
  proof -
    have jc: "j' < cols" "j' - 1 < cols" using j' kc by simp_all
    have "1 \<le> j' \<Longrightarrow> j' - 1 \<noteq> k" using j' by arith
    then have left: "1 \<le> j' \<Longrightarrow> ?t' ! i ! (j' - 1) = t ! i ! (j' - 1)"
      using i jc by (simp add: nth')
    show ?thesis
    proof (cases "j' = k")
      case True
      then show ?thesis using i kc new left by (simp add: nth')
    next
      case False
      then have "j' < k" using j' by simp
      then show ?thesis using i jc fin [of j'] left False by (simp add: nth')
    qed
  qed
  show ?thesis
    unfolding rowInv_def using r' same' fin' by blast
qed

lemma stepRow_invariant:
  assumes h: "rect h rows cols" and i: "i < rows"
  shows "rowInv gamma rows cols h i cols (stepRow gamma rows cols i h)"
proof -
  have "cols \<le> cols \<longrightarrow> rowInv gamma rows cols h i cols
          (fold (\<lambda>j g. stepCell gamma rows cols i j g) [0..<cols] h)"
    by (rule fold_upt_invariant [where P = "\<lambda>k t. k \<le> cols \<longrightarrow> rowInv gamma rows cols h i k t"])
      (simp_all add: rowInv_start h rowInv_step i)
  then show ?thesis by (simp add: stepRow_def)
qed

lemma gridInv_start: "rect g rows cols \<Longrightarrow> gridInv gamma rows cols g 0 g"
  by (simp add: gridInv_def)

lemma gridInv_step:
  assumes inv: "gridInv gamma rows cols g m s" and g: "rect g rows cols" and m: "m < rows"
  shows "gridInv gamma rows cols g (Suc m) (stepRow gamma rows cols m s)"
proof -
  let ?s' = "stepRow gamma rows cols m s"
  from inv have rs: "rect s rows cols"
    and later: "\<And>i j. i < rows \<Longrightarrow> j < cols \<Longrightarrow> m \<le> i \<Longrightarrow> s ! i ! j = g ! i ! j"
    and earlier: "\<And>i j. i < m \<Longrightarrow> j < cols \<Longrightarrow> s ! i ! j = inPlaceCell gamma g s i j"
    by (simp_all add: gridInv_def)
  have lg: "length g = rows" "\<And>i. i < rows \<Longrightarrow> length (g ! i) = cols"
    using g by (simp_all add: rect_def)
  have row: "rowInv gamma rows cols s m cols ?s'"
    using rs m by (rule stepRow_invariant)
  then have rs': "rect ?s' rows cols"
    and other: "\<And>i j. i < rows \<Longrightarrow> j < cols \<Longrightarrow> i \<noteq> m \<Longrightarrow> ?s' ! i ! j = s ! i ! j"
    and cur: "\<And>j. j < cols \<Longrightarrow> ?s' ! m ! j =
          stencil gamma (if 1 \<le> m then s ! (m - 1) ! j else 0)
           (if m + 1 < rows then s ! (m + 1) ! j else 0)
           (if 1 \<le> j then ?s' ! m ! (j - 1) else 0)
           (if j + 1 < cols then s ! m ! (j + 1) else 0) (s ! m ! j)"
    by (simp_all add: rowInv_def)
  have later': "?s' ! i ! j = g ! i ! j" if "i < rows" "j < cols" "Suc m \<le> i" for i j
    using that by (simp add: other later)
  have earlier': "?s' ! i ! j = inPlaceCell gamma g ?s' i j" if ij: "i < Suc m" "j < cols" for i j
  proof (cases "i = m")
    case True
    have up: "1 \<le> m \<Longrightarrow> ?s' ! (m - 1) ! j = s ! (m - 1) ! j"
      using m ij by (simp add: other)
    show ?thesis
      using m ij True up
      by (simp add: cur inPlaceCell_def lg later)
  next
    case False
    then have im: "i < m" using ij by simp
    then have ir: "i < rows" "i - 1 < rows" "i - 1 \<noteq> m" using m by simp_all
    have jc: "j - 1 < cols" using ij by simp
    have "?s' ! i ! j = inPlaceCell gamma g s i j"
      using im ir ij by (simp add: other earlier)
    also have "\<dots> = inPlaceCell gamma g ?s' i j"
      using im ir ij jc False by (simp add: inPlaceCell_def other)
    finally show ?thesis .
  qed
  show ?thesis
    unfolding gridInv_def using rs' later' earlier' by blast
qed

lemma stepRows_invariant:
  assumes g: "rect g rows cols"
  shows "gridInv gamma rows cols g rows (stepRows gamma rows cols g)"
proof -
  have "rows \<le> rows \<longrightarrow> gridInv gamma rows cols g rows
          (fold (\<lambda>i s. stepRow gamma rows cols i s) [0..<rows] g)"
    by (rule fold_upt_invariant [where P = "\<lambda>k t. k \<le> rows \<longrightarrow> gridInv gamma rows cols g k t"])
      (simp_all add: gridInv_start g gridInv_step)
  then show ?thesis by (simp add: stepRows_def)
qed

lemma heatDissipationTimeStep_rect:
  assumes g: "rect g rows cols" and r: "0 < rows"
  shows "heatDissipationTimeStep g gamma = Inr (stepRows gamma rows cols g)"
proof -
  obtain row0 rest where c: "g = row0 # rest"
    using g r by (cases g) (auto simp: rect_def)
  then have "length row0 = cols" "length g = rows" using g by (auto simp: rect_def)
  then show ?thesis by (simp add: heatDissipationTimeStep_def c)
qed

lemma replicate_update_same: "(replicate n x)[j := x] = replicate n x"
  by (cases "j < n") (simp_all add: list_eq_iff_nth_eq nth_list_update)

lemma stepCell_zero:
  assumes "i < rows" "j < cols"
  shows "stepCell gamma rows cols i j (replicate rows (replicate cols 0)) = replicate rows (replicate cols 0)"
  using assms
  by (simp add: stepCell_def getCell_def setCell_def rawTemp_def clampTemp_def Let_def replicate_update_same)

lemma stepRows_zero:
  "stepRows gamma rows cols (replicate rows (replicate cols 0)) = replicate rows (replicate cols 0)"
proof -
  let ?z = "replicate rows (replicate cols (0::real))"
  have row: "stepRow gamma rows cols i ?z = ?z" if "i < rows" for i
    unfolding stepRow_def
    by (rule fold_upt_invariant [where P = "\<lambda>k t. t = ?z"]) (simp_all add: stepCell_zero that)
  show ?thesis
    unfolding stepRows_def
    by (rule fold_upt_invariant [where P = "\<lambda>k t. t = ?z"]) (simp_all add: row)
qed

lemma all_zero_replicate:
  assumes "rect g rows cols" "\<forall>r \<in> set g. \<forall>v \<in> set r. v = 0"
  shows "g = replicate rows (replicate cols 0)"
proof -
  have "r = replicate cols 0" if "r \<in> set g" for r
  proof -
    have "length r = cols" "\<forall>v \<in> set r. v = 0"
      using assms that by (simp_all add: rect_def)
    then show ?thesis using replicate_length_same [of r 0] by simp
  qed
  then have "\<forall>r \<in> set g. r = replicate cols 0" by simp
  moreover have "length g = rows" using assms(1) by (simp add: rect_def)
  ultimately show ?thesis using replicate_length_same [of g "replicate cols 0"] by simp
qed

section \<open>The grid built by \<open>initializeHeatGrid\<close>\<close>

lemma zeroRow_replicate: "zeroRow cols = replicate cols 0"
  unfolding zeroRow_def
  by (rule fold_upt_invariant [where P = "\<lambda>k t. t = replicate k 0"])
    (simp_all add: replicate_append_same)

lemma zeroGrid_replicate: "zeroGrid rows cols = replicate rows (replicate cols 0)"
  unfolding zeroGrid_def
  by (rule fold_upt_invariant [where P = "\<lambda>k t. t = replicate k (replicate cols 0)"])
    (simp_all add: replicate_append_same zeroRow_replicate)

lemma rect_replicate: "rect (replicate rows (replicate cols v)) rows cols"
  by (simp add: rect_def)

lemma fill_row:
  fixes f :: "nat \<Rightarrow> real"
  assumes h: "rect h rows cols" and i: "i < rows"
  defines "s \<equiv> fold (\<lambda>j g. setCell g i j (f j)) [0..<cols] h"
  shows "rect s rows cols \<and>
         (\<forall>i' < rows. \<forall>j' < cols. s ! i' ! j' = (if i' = i then f j' else h ! i' ! j'))"
proof -
  have "cols \<le> cols \<longrightarrow> rect s rows cols \<and>
         (\<forall>i' < rows. \<forall>j' < cols. s ! i' ! j' = (if i' = i \<and> j' < cols then f j' else h ! i' ! j'))"
    unfolding s_def
  proof (rule fold_upt_invariant [where P = "\<lambda>k t. k \<le> cols \<longrightarrow> rect t rows cols \<and>
         (\<forall>i' < rows. \<forall>j' < cols. t ! i' ! j' = (if i' = i \<and> j' < k then f j' else h ! i' ! j'))"])
    show "0 \<le> cols \<longrightarrow> rect h rows cols \<and>
      (\<forall>i'<rows. \<forall>j'<cols. h ! i' ! j' = (if i' = i \<and> j' < 0 then f j' else h ! i' ! j'))"
      using h by simp
  next
    fix k t
    assume k: "k < cols"
      and IH: "k \<le> cols \<longrightarrow> rect t rows cols \<and>
        (\<forall>i'<rows. \<forall>j'<cols. t ! i' ! j' = (if i' = i \<and> j' < k then f j' else h ! i' ! j'))"
    then have rt: "rect t rows cols" by simp
    show "Suc k \<le> cols \<longrightarrow> rect (setCell t i k (f k)) rows cols \<and>
        (\<forall>i'<rows. \<forall>j'<cols. setCell t i k (f k) ! i' ! j' =
            (if i' = i \<and> j' < Suc k then f j' else h ! i' ! j'))"
      using IH k i by (auto simp: setCell_rect setCell_nth [OF rt])
  qed
  then show ?thesis by simp
qed

lemma fill_grid:
  fixes f :: "nat \<Rightarrow> nat \<Rightarrow> real"
  assumes g: "rect g rows cols"
  defines "s \<equiv> fold (\<lambda>i t. fold (\<lambda>j t'. setCell t' i j (f i j)) [0..<cols] t) [0..<rows] g"
  shows "rect s rows cols \<and> (\<forall>i < rows. \<forall>j < cols. s ! i ! j = f i j)"
proof -
  have "rows \<le> rows \<longrightarrow> rect s rows cols \<and>
         (\<forall>i < rows. \<forall>j < cols. s ! i ! j = (if i < rows then f i j else g ! i ! j))"
    unfolding s_def
  proof (rule fold_upt_invariant [where P = "\<lambda>k t. k \<le> rows \<longrightarrow> rect t rows cols \<and>
         (\<forall>i < rows. \<forall>j < cols. t ! i ! j = (if i < k then f i j else g ! i ! j))"])
    show "0 \<le> rows \<longrightarrow> rect g rows cols \<and>
      (\<forall>i<rows. \<forall>j<cols. g ! i ! j = (if i < 0 then f i j else g ! i ! j))"
      using g by simp
  next
    fix k t
    assume k: "k < rows"
      and IH: "k \<le> rows \<longrightarrow> rect t rows cols \<and>
        (\<forall>i<rows. \<forall>j<cols. t ! i ! j = (if i < k then f i j else g ! i ! j))"
    then have rt: "rect t rows cols" by simp
    show "Suc k \<le> rows \<longrightarrow> rect (fold (\<lambda>j t'. setCell t' k j (f k j)) [0..<cols] t) rows cols \<and>
        (\<forall>i<rows. \<forall>j<cols. fold (\<lambda>j t'. setCell t' k j (f k j)) [0..<cols] t ! i ! j =
            (if i < Suc k then f i j else g ! i ! j))"
      using IH k fill_row [OF rt k, of "f k"] by auto
  qed
  then show ?thesis by simp
qed

lemma expFill_cells:
  assumes "rect g rows cols"
  shows "rect (expFill rows cols beta alpha g) rows cols \<and>
         (\<forall>i < rows. \<forall>j < cols. expFill rows cols beta alpha g ! i ! j =
             alpha * exp (- beta * real_of_int (sqDist rows cols i j)))"
  unfolding expFill_def expCell_def
  using fill_grid [OF assms, of "\<lambda>i j. alpha * exp (- beta * real_of_int (sqDist rows cols i j))"]
  by simp










section \<open>Adding heat to a cell and its neighbours\<close>

lemma addCell_rect:
  "rect g rows cols \<Longrightarrow> y < rows \<Longrightarrow> x < cols \<Longrightarrow>
   addCell g y x heat = Inr (setCell g y x (g ! y ! x + heat))"
  by (simp add: addCell_def getCell_rect rect_length)

lemma bump_rect: "rect g rows cols \<Longrightarrow> y < rows \<Longrightarrow> x < cols \<Longrightarrow> rect (bump y x heat g) rows cols"
  by (simp add: bump_def setCell_rect)

lemma bump_nth:
  "rect g rows cols \<Longrightarrow> y < rows \<Longrightarrow> x < cols \<Longrightarrow> i < rows \<Longrightarrow> j < cols \<Longrightarrow>
   bump y x heat g ! i ! j = g ! i ! j + (if i = y \<and> j = x then heat else 0)"
  by (simp add: bump_def setCell_nth)

lemma addHeat_nat:
  assumes g: "rect g rows cols" and y: "y < rows" and x: "x < cols"
  shows "\<exists>g'. addHeatOnMouseClick (int rows) (int cols) g (int x) (int y) heat = Inr g'
           \<and> rect g' rows cols
           \<and> (\<forall>i < rows. \<forall>j < cols.
                g' ! i ! j = g ! i ! j + (if inCross (int y) (int x) i j then heat else 0))"
proof -
  define g1 where "g1 = bump y x heat g"
  define g2 where "g2 = (if 0 < x then bump y (x - 1) heat g1 else g1)"
  define g3 where "g3 = (if x + 1 < cols then bump y (x + 1) heat g2 else g2)"
  define g4 where "g4 = (if 0 < y then bump (y - 1) x heat g3 else g3)"
  define g5 where "g5 = (if y + 1 < rows then bump (y + 1) x heat g4 else g4)"
  have r1: "rect g1 rows cols" using g y x by (simp add: g1_def bump_rect)
  have r2: "rect g2 rows cols" using r1 y x by (simp add: g2_def bump_rect)
  have r3: "rect g3 rows cols" using r2 y x by (simp add: g3_def bump_rect)
  have r4: "rect g4 rows cols" using r3 y x by (simp add: g4_def bump_rect)
  have r5: "rect g5 rows cols" using r4 y x by (simp add: g5_def bump_rect)
  have n: "nat (int y - 1) = y - 1" "nat (int x - 1) = x - 1"
    "nat (int y + 1) = y + 1" "nat (int x + 1) = x + 1" by simp_all
  have c: "int x < int cols - 1 \<longleftrightarrow> x + 1 < cols" "int y < int rows - 1 \<longleftrightarrow> y + 1 < rows"
    by auto
  have e1: "addCell g (nat (int y)) (nat (int x)) heat = Inr g1"
    using g y x by (simp add: addCell_rect g1_def bump_def)
  have e2: "(if 0 < int x then addCell g1 (nat (int y)) (nat (int x - 1)) heat else Inr g1) = Inr g2"
    using r1 y x by (simp add: addCell_rect g2_def bump_def n)
  have e3: "(if int x < int cols - 1 then addCell g2 (nat (int y)) (nat (int x + 1)) heat else Inr g2)
              = Inr g3"
    using r2 y x by (simp add: addCell_rect g3_def bump_def n c)
  have e4: "(if 0 < int y then addCell g3 (nat (int y - 1)) (nat (int x)) heat else Inr g3) = Inr g4"
    using r3 y x by (simp add: addCell_rect g4_def bump_def n)
  have e5: "(if int y < int rows - 1 then addCell g4 (nat (int y + 1)) (nat (int x)) heat else Inr g4)
              = Inr g5"
    using r4 y x by (simp add: addCell_rect g5_def bump_def n c)
  have run: "addHeatOnMouseClick (int rows) (int cols) g (int x) (int y) heat = Inr g5"
    unfolding addHeatOnMouseClick_def thenE_def e1 e2 e3 e4 e5 sum.case
    using y x by simp
  have cell: "g5 ! i ! j = g ! i ! j + (if inCross (int y) (int x) i j then heat else 0)"
    if ij: "i < rows" "j < cols" for i j
  proof -
    have v1: "g1 ! i ! j = g ! i ! j + (if i = y \<and> j = x then heat else 0)"
      using g y x ij by (simp add: g1_def bump_nth)
    have v2: "g2 ! i ! j = g1 ! i ! j + (if i = y \<and> j + 1 = x then heat else 0)"
      using r1 y x ij by (auto simp: g2_def bump_nth)
    have v3: "g3 ! i ! j = g2 ! i ! j + (if i = y \<and> j = x + 1 then heat else 0)"
      using r2 y x ij by (auto simp: g3_def bump_nth)
    have v4: "g4 ! i ! j = g3 ! i ! j + (if i + 1 = y \<and> j = x then heat else 0)"
      using r3 y x ij by (auto simp: g4_def bump_nth)
    have v5: "g5 ! i ! j = g4 ! i ! j + (if i = y + 1 \<and> j = x then heat else 0)"
      using r4 y x ij by (auto simp: g5_def bump_nth)
    have "inCross (int y) (int x) i j \<longleftrightarrow>
            (i = y \<and> j = x) \<or> (i = y \<and> j + 1 = x) \<or> (i = y \<and> j = x + 1)
            \<or> (i + 1 = y \<and> j = x) \<or> (i = y + 1 \<and> j = x)"
      unfolding inCross_def by arith
    then show ?thesis
      unfolding v5 v4 v3 v2 v1 by auto
  qed
  show ?thesis using run r5 cell by blast
qed

lemma inCross_nat:
  "inCross (int y) (int x) i j \<longleftrightarrow>
     (i = y \<and> j = x) \<or> (i = y \<and> j + 1 = x) \<or> (i = y \<and> j = x + 1)
     \<or> (i + 1 = y \<and> j = x) \<or> (i = y + 1 \<and> j = x)"
  unfolding inCross_def by arith

lemma increasedCells_cross:
  assumes "\<forall>i < rows. \<forall>j < cols. g' ! i ! j = g ! i ! j + (if inCross gridY gridX i j then heat else 0)"
    and "heat \<noteq> 0"
  shows "increasedCells g g' heat rows cols = {(i, j). i < rows \<and> j < cols \<and> inCross gridY gridX i j}"
proof -
  have "g' ! i ! j = g ! i ! j + heat \<longleftrightarrow> inCross gridY gridX i j"
    if "i < rows" "j < cols" for i j
    using assms that by simp
  then show ?thesis
    unfolding increasedCells_def by auto
qed

lemma cross_interior:
  assumes "0 < y" "y + 1 < rows" "0 < x" "x + 1 < cols"
  shows "card {(i, j). i < rows \<and> j < cols \<and> inCross (int y) (int x) i j} = 5"
proof -
  have "{(i, j). i < rows \<and> j < cols \<and> inCross (int y) (int x) i j}
          = {(y, x), (y, x - 1), (y, x + 1), (y - 1, x), (y + 1, x)}"
    using assms unfolding inCross_nat by auto
  moreover have "card {(y, x), (y, x - 1), (y, x + 1), (y - 1, x), (y + 1, x)} = 5"
  proof -
    obtain y0 x0 where "y = Suc y0" "x = Suc x0"
      using assms by (metis gr0_implies_Suc)
    then show ?thesis by simp
  qed
  ultimately show ?thesis by simp
qed

lemma cross_corner:
  assumes "2 \<le> rows" "2 \<le> cols" "y = 0 \<or> y + 1 = rows" "x = 0 \<or> x + 1 = cols"
  shows "card {(i, j). i < rows \<and> j < cols \<and> inCross (int y) (int x) i j} = 3"
proof -
  define y' where "y' = (if y = 0 then 1 else y - 1)"
  define x' where "x' = (if x = 0 then 1 else x - 1)"
  have "{(i, j). i < rows \<and> j < cols \<and> inCross (int y) (int x) i j}
          = {(y, x), (y, x'), (y', x)}"
    using assms unfolding inCross_nat y'_def x'_def by auto
  moreover have "y' \<noteq> y" "x' \<noteq> x"
    unfolding y'_def x'_def by auto
  then have "card {(y, x), (y, x'), (y', x)} = 3"
    by simp
  ultimately show ?thesis by simp
qed

section \<open>Cell counts of the render target\<close>

lemma totalCells_le:
  assumes "0 < scale"
  shows "totalCells n scale \<le> n"
proof (cases "n mod scale = 0")
  case True
  then show ?thesis using assms by (simp add: totalCells_def)
next
  case False
  have "n div scale * 1 \<le> n div scale * scale"
    using assms by (intro mult_le_mono2) simp
  moreover have "n = n div scale * scale + n mod scale" by simp
  moreover have "1 \<le> n mod scale" using False by simp
  ultimately have "n div scale + 1 \<le> n" by linarith
  then show ?thesis using False by (simp add: totalCells_def)
qed

section \<open>The pixels written by \<open>drawHeatGrid\<close>\<close>

lemma putPixel_length: "length (putPixel data k heat) = length data"
  by (simp add: putPixel_def)

lemma putPixel_channel:
  "putPixel data k heat =
     data[k := channel heat 0, k + 1 := channel heat 1, k + 2 := channel heat 2, k + 3 := channel heat 3]"
  unfolding putPixel_def channel_def by simp

lemma putPixel_nth:
  assumes "n < length data"
  shows "putPixel data k heat ! n = (if k \<le> n \<and> n < k + 4 then channel heat (n - k) else data ! n)"
proof -
  consider "n < k" | "n = k" | "n = k + 1" | "n = k + 2" | "n = k + 3" | "k + 4 \<le> n"
    by arith
  then show ?thesis
    using assms by cases (simp_all add: putPixel_channel nth_list_update)
qed

lemma pixel_index:
  fixes x y W n :: nat
  assumes "x < W"
  shows "(y * W * 4 + x * 4 \<le> n \<and> n < y * W * 4 + x * 4 + 4)
           \<longleftrightarrow> (n div 4 div W = y \<and> n div 4 mod W = x)"
proof -
  have "(y * W * 4 + x * 4 \<le> n \<and> n < y * W * 4 + x * 4 + 4) \<longleftrightarrow> n div 4 = y * W + x"
    by arith
  also have "\<dots> \<longleftrightarrow> (n div 4 div W = y \<and> n div 4 mod W = x)"
  proof
    assume "n div 4 = y * W + x"
    then show "n div 4 div W = y \<and> n div 4 mod W = x"
      using assms by simp
  next
    assume "n div 4 div W = y \<and> n div 4 mod W = x"
    then show "n div 4 = y * W + x"
      using div_mult_mod_eq [of "n div 4" W] by simp
  qed
  finally show ?thesis .
qed

lemma pixel_channel:
  fixes x y W n :: nat
  assumes "y * W * 4 + x * 4 \<le> n" "n < y * W * 4 + x * 4 + 4"
  shows "n - (y * W * 4 + x * 4) = n mod 4"
  using assms by arith

lemma putPixel_at:
  assumes "n < length data" "x < W"
  shows "putPixel data (y * W * 4 + x * 4) heat ! n =
           (if n div 4 div W = y \<and> n div 4 mod W = x then channel heat (n mod 4) else data ! n)"
proof -
  define k where "k = y * W * 4 + x * 4"
  have iff: "(k \<le> n \<and> n < k + 4) \<longleftrightarrow> (n div 4 div W = y \<and> n div 4 mod W = x)"
    unfolding k_def using assms(2) by (rule pixel_index)
  have ch: "k \<le> n \<and> n < k + 4 \<Longrightarrow> n - k = n mod 4"
    unfolding k_def using pixel_channel [of y W x n] by blast
  have "putPixel data k heat ! n = (if k \<le> n \<and> n < k + 4 then channel heat (n - k) else data ! n)"
    using assms(1) by (rule putPixel_nth)
  also have "\<dots> = (if k \<le> n \<and> n < k + 4 then channel heat (n mod 4) else data ! n)"
    using ch by presburger
  also have "\<dots> = (if n div 4 div W = y \<and> n div 4 mod W = x then channel heat (n mod 4) else data ! n)"
    by (simp only: iff)
  finally show ?thesis unfolding k_def .
qed

lemma pixelRow:
  assumes "\<forall>x \<in> set xs. x < W"
  shows "length (fold (\<lambda>x d'. putPixel d' (y * W * 4 + x * 4) heat) xs d) = length d
       \<and> (\<forall>n < length d. fold (\<lambda>x d'. putPixel d' (y * W * 4 + x * 4) heat) xs d ! n =
            (if n div 4 div W = y \<and> n div 4 mod W \<in> set xs then channel heat (n mod 4) else d ! n))"
  using assms
proof (induction xs arbitrary: d)
  case Nil
  then show ?case by simp
next
  case (Cons x xs)
  let ?d = "putPixel d (y * W * 4 + x * 4) heat"
  have l: "length ?d = length d" by (rule putPixel_length)
  have x: "x < W" and xs: "\<forall>x \<in> set xs. x < W" using Cons.prems by simp_all
  have IH: "length (fold (\<lambda>x d'. putPixel d' (y * W * 4 + x * 4) heat) xs ?d) = length ?d"
    "\<And>n. n < length d \<Longrightarrow> fold (\<lambda>x d'. putPixel d' (y * W * 4 + x * 4) heat) xs ?d ! n =
            (if n div 4 div W = y \<and> n div 4 mod W \<in> set xs then channel heat (n mod 4) else ?d ! n)"
    using Cons.IH [OF xs, of ?d] l by simp_all
  show ?case
    using IH l by (auto simp: putPixel_at [OF _ x])
qed

lemma fillBlock_nth:
  assumes "\<forall>x \<in> set xs. x < W"
  shows "length (fillBlock g W row col ys xs d) = length d
       \<and> (\<forall>n < length d. fillBlock g W row col ys xs d ! n =
            (if n div 4 div W \<in> set ys \<and> n div 4 mod W \<in> set xs
             then channel (getCell g row col) (n mod 4) else d ! n))"
  unfolding fillBlock_def Let_def
proof (induction ys arbitrary: d)
  case Nil
  then show ?case by simp
next
  case (Cons y ys)
  let ?d = "fold (\<lambda>x d'. putPixel d' (y * W * 4 + x * 4) (getCell g row col)) xs d"
  have r: "length ?d = length d"
    "\<And>n. n < length d \<Longrightarrow> ?d ! n =
        (if n div 4 div W = y \<and> n div 4 mod W \<in> set xs
         then channel (getCell g row col) (n mod 4) else d ! n)"
    using pixelRow [OF assms, of y "getCell g row col" d] by simp_all
  show ?case
    using Cons.IH [of ?d] r by auto
qed

lemma block_range:
  fixes s :: nat
  assumes "0 < s"
  shows "y \<in> set [r * s..<(r + 1) * s] \<longleftrightarrow> y div s = r"
proof
  assume "y \<in> set [r * s..<(r + 1) * s]"
  then have "s * r \<le> y" "y < s * Suc r" by (simp_all add: mult.commute)
  then show "y div s = r" by (rule div_nat_eqI)
next
  assume r: "y div s = r"
  have "y = r * s + y mod s" using r div_mult_mod_eq [of y s] by simp
  moreover have "y mod s < s" using assms by simp
  ultimately show "y \<in> set [r * s..<(r + 1) * s]" by simp
qed

lemma drawRow_nth:
  fixes g :: grid and row :: nat
  assumes s: "0 < scale" and fit: "fullCellsX * scale \<le> W"
  defines "blocks \<equiv> (\<lambda>c d. fold (\<lambda>col d'.
             fillBlock g W row col [row * scale..<(row + 1) * scale] [col * scale..<(col + 1) * scale] d')
           [0..<c] d)"
  shows "length (blocks fullCellsX d) = length d
       \<and> (\<forall>n < length d. blocks fullCellsX d ! n =
            (if n div 4 div W div scale = row \<and> n div 4 mod W div scale < fullCellsX
             then channel (getCell g row (n div 4 mod W div scale)) (n mod 4) else d ! n))"
proof -
  have "fullCellsX \<le> fullCellsX \<longrightarrow> length (blocks fullCellsX d) = length d
       \<and> (\<forall>n < length d. blocks fullCellsX d ! n =
            (if n div 4 div W div scale = row \<and> n div 4 mod W div scale < fullCellsX
             then channel (getCell g row (n div 4 mod W div scale)) (n mod 4) else d ! n))"
    unfolding blocks_def
  proof (rule fold_upt_invariant [where P = "\<lambda>c t. c \<le> fullCellsX \<longrightarrow> length t = length d
       \<and> (\<forall>n < length d. t ! n =
            (if n div 4 div W div scale = row \<and> n div 4 mod W div scale < c
             then channel (getCell g row (n div 4 mod W div scale)) (n mod 4) else d ! n))"])
    show "0 \<le> fullCellsX \<longrightarrow> length d = length d \<and>
      (\<forall>n<length d. d ! n =
         (if n div 4 div W div scale = row \<and> n div 4 mod W div scale < 0
          then channel (getCell g row (n div 4 mod W div scale)) (n mod 4) else d ! n))"
      by simp
  next
    fix c t
    assume c: "c < fullCellsX"
      and IH: "c \<le> fullCellsX \<longrightarrow> length t = length d \<and>
        (\<forall>n<length d. t ! n =
           (if n div 4 div W div scale = row \<and> n div 4 mod W div scale < c
            then channel (getCell g row (n div 4 mod W div scale)) (n mod 4) else d ! n))"
    let ?t = "fillBlock g W row c [row * scale..<(row + 1) * scale] [c * scale..<(c + 1) * scale] t"
    have "(c + 1) * scale \<le> fullCellsX * scale" using c by (intro mult_le_mono1) simp
    then have inW: "\<forall>x \<in> set [c * scale..<(c + 1) * scale]. x < W" using fit by auto
    have lt: "length t = length d"
      and told: "\<And>n. n < length d \<Longrightarrow> t ! n =
           (if n div 4 div W div scale = row \<and> n div 4 mod W div scale < c
            then channel (getCell g row (n div 4 mod W div scale)) (n mod 4) else d ! n)"
      using IH c by simp_all
    have new: "length ?t = length t"
      "\<And>n. n < length d \<Longrightarrow> ?t ! n =
          (if n div 4 div W div scale = row \<and> n div 4 mod W div scale = c
           then channel (getCell g row c) (n mod 4) else t ! n)"
      using fillBlock_nth [OF inW, of g row c "[row * scale..<(row + 1) * scale]" t] lt
      by (simp_all only: block_range [OF s])
    show "Suc c \<le> fullCellsX \<longrightarrow> length ?t = length d \<and>
        (\<forall>n<length d. ?t ! n =
           (if n div 4 div W div scale = row \<and> n div 4 mod W div scale < Suc c
            then channel (getCell g row (n div 4 mod W div scale)) (n mod 4) else d ! n))"
      using new lt told by (auto simp: less_Suc_eq)
  qed
  then show ?thesis by simp
qed

lemma drawFullCells_nth:
  fixes g :: grid
  assumes s: "0 < scale" and fit: "fullCellsX * scale \<le> W"
  shows "length (drawFullCells g W scale fullCellsX fullCellsY d) = length d
       \<and> (\<forall>n < length d. drawFullCells g W scale fullCellsX fullCellsY d ! n =
            (if n div 4 div W div scale < fullCellsY \<and> n div 4 mod W div scale < fullCellsX
             then channel (getCell g (n div 4 div W div scale) (n div 4 mod W div scale)) (n mod 4)
             else d ! n))"
proof -
  have "fullCellsY \<le> fullCellsY \<longrightarrow>
        length (drawFullCells g W scale fullCellsX fullCellsY d) = length d
       \<and> (\<forall>n < length d. drawFullCells g W scale fullCellsX fullCellsY d ! n =
            (if n div 4 div W div scale < fullCellsY \<and> n div 4 mod W div scale < fullCellsX
             then channel (getCell g (n div 4 div W div scale) (n div 4 mod W div scale)) (n mod 4)
             else d ! n))"
    unfolding drawFullCells_def
  proof (rule fold_upt_invariant [where P = "\<lambda>r t. r \<le> fullCellsY \<longrightarrow> length t = length d
       \<and> (\<forall>n < length d. t ! n =
            (if n div 4 div W div scale < r \<and> n div 4 mod W div scale < fullCellsX
             then channel (getCell g (n div 4 div W div scale) (n div 4 mod W div scale)) (n mod 4)
             else d ! n))"])
    show "0 \<le> fullCellsY \<longrightarrow> length d = length d \<and>
      (\<forall>n<length d. d ! n =
         (if n div 4 div W div scale < 0 \<and> n div 4 mod W div scale < fullCellsX
          then channel (getCell g (n div 4 div W div scale) (n div 4 mod W div scale)) (n mod 4)
          else d ! n))"
      by simp
  next
    fix r t
    assume r: "r < fullCellsY"
      and IH: "r \<le> fullCellsY \<longrightarrow> length t = length d \<and>
        (\<forall>n<length d. t ! n =
           (if n div 4 div W div scale < r \<and> n div 4 mod W div scale < fullCellsX
            then channel (getCell g (n div 4 div W div scale) (n div 4 mod W div scale)) (n mod 4)
            else d ! n))"
    let ?t = "fold (\<lambda>col d'. fillBlock g W r col [r * scale..<(r + 1) * scale]
                 [col * scale..<(col + 1) * scale] d') [0..<fullCellsX] t"
    have lt: "length t = length d"
      and told: "\<And>n. n < length d \<Longrightarrow> t ! n =
           (if n div 4 div W div scale < r \<and> n div 4 mod W div scale < fullCellsX
            then channel (getCell g (n div 4 div W div scale) (n div 4 mod W div scale)) (n mod 4)
            else d ! n)"
      using IH r by simp_all
    have new: "length ?t = length t"
      "\<And>n. n < length d \<Longrightarrow> ?t ! n =
          (if n div 4 div W div scale = r \<and> n div 4 mod W div scale < fullCellsX
           then channel (getCell g r (n div 4 mod W div scale)) (n mod 4) else t ! n)"
      using drawRow_nth [OF s fit, of g r t] lt by simp_all
    show "Suc r \<le> fullCellsY \<longrightarrow> length ?t = length d \<and>
        (\<forall>n<length d. ?t ! n =
           (if n div 4 div W div scale < Suc r \<and> n div 4 mod W div scale < fullCellsX
            then channel (getCell g (n div 4 div W div scale) (n div 4 mod W div scale)) (n mod 4)
            else d ! n))"
      using new lt told by (auto simp: less_Suc_eq)
  qed
  then show ?thesis by simp
qed

lemma drawRemainder_empty:
  assumes "gridSizeY \<le> fullCellsY * scale \<or> gridSizeX \<le> fullCellsX * scale"
  shows "drawRemainder g W H gridSizeX gridSizeY scale fullCellsX fullCellsY d = d"
proof (cases "gridSizeY \<le> fullCellsY * scale")
  case True
  then show ?thesis by (simp add: drawRemainder_def)
next
  case False
  then have e: "[fullCellsX * scale..<gridSizeX] = []" using assms by simp
  have idle: "fold (\<lambda>row. id) rs d = d" for rs :: "nat list"
    by (induction rs) simp_all
  show ?thesis
    unfolding drawRemainder_def e by (simp add: idle)
qed

text \<open>
  What a successful call writes, when the target holds at least one full cell along one
  of its axes: byte \<open>n\<close> of the buffer belongs to the pixel in column \<open>n div 4 mod W\<close> and
  row \<open>n div 4 div W\<close>; inside the area of the full cells it receives the channel of the
  cell of its block, and outside that area, in the remainder strips, it is left as it was.
\<close>

lemma drawHeatGrid_pixels:
  assumes g: "rect heatGrid rows cols" and rows: "0 < rows" and s: "0 < scale"
    and tx: "totalCells W scale = cols" and ty: "totalCells H scale = rows"
    and full: "scale \<le> W \<or> scale \<le> H"
  shows "\<exists>d. drawHeatGrid W H data heatGrid scale = Inr d \<and> length d = length data
           \<and> (\<forall>n < length data. d ! n =
                 (if n div 4 div W < H div scale * scale \<and> n div 4 mod W < W div scale * scale
                  then channel (Some (heatGrid ! (n div 4 div W div scale) ! (n div 4 mod W div scale)))
                         (n mod 4)
                  else data ! n))"
proof -
  let ?FX = "W div scale" and ?FY = "H div scale"
  obtain row0 rest where c: "heatGrid = row0 # rest"
    using g rows by (cases heatGrid) (auto simp: rect_def)
  have len: "length row0 = cols" "length heatGrid = rows"
    using g c by (auto simp: rect_def)
  have le: "cols \<le> W" "rows \<le> H"
    using totalCells_le [OF s] tx ty by auto
  have t: "(if W mod scale = 0 then ?FX else ?FX + 1) = cols"
    "(if H mod scale = 0 then ?FY else ?FY + 1) = rows"
    using tx ty by (auto simp: totalCells_def split: if_splits)
  have FXc: "?FX \<le> cols" and FYr: "?FY \<le> rows"
    using t by (auto split: if_splits)
  have noRem: "rows \<le> ?FY * scale \<or> cols \<le> ?FX * scale"
  proof -
    have "rows \<le> ?FY * scale" if "scale \<le> H"
    proof -
      have "1 \<le> ?FY" using that s by (simp add: Suc_leI div_greater_zero_iff)
      show ?thesis
      proof (cases "H mod scale = 0")
        case True
        then have "rows = ?FY" using t by simp
        then show ?thesis using s by simp
      next
        case False
        then have "rows = ?FY + 1" using t by simp
        moreover have "2 \<le> scale"
          using False s by (cases "scale = 1") auto
        moreover have "?FY * 2 \<le> ?FY * scale"
          using \<open>2 \<le> scale\<close> by (intro mult_le_mono2)
        ultimately show ?thesis using \<open>1 \<le> ?FY\<close> by linarith
      qed
    qed
    moreover have "cols \<le> ?FX * scale" if "scale \<le> W"
    proof -
      have "1 \<le> ?FX" using that s by (simp add: Suc_leI div_greater_zero_iff)
      show ?thesis
      proof (cases "W mod scale = 0")
        case True
        then have "cols = ?FX" using t by simp
        then show ?thesis using s by simp
      next
        case False
        then have "cols = ?FX + 1" using t by simp
        moreover have "2 \<le> scale"
          using False s by (cases "scale = 1") auto
        moreover have "?FX * 2 \<le> ?FX * scale"
          using \<open>2 \<le> scale\<close> by (intro mult_le_mono2)
        ultimately show ?thesis using \<open>1 \<le> ?FX\<close> by linarith
      qed
    qed
    ultimately show ?thesis using full by blast
  qed
  let ?d = "drawFullCells heatGrid W scale ?FX ?FY data"
  have run: "drawHeatGrid W H data heatGrid scale = Inr ?d"
    unfolding drawHeatGrid_def c list.case Let_def len [unfolded c] t
    using le s by (simp add: drawRemainder_empty [OF noRem])
  have fit: "?FX * scale \<le> W" by simp
  have cell: "getCell heatGrid i j = Some (heatGrid ! i ! j)" if "i < ?FY" "j < ?FX" for i j
    using that FXc FYr by (intro getCell_rect [OF g]) simp_all
  have px: "length ?d = length data"
    "\<And>n. n < length data \<Longrightarrow> ?d ! n =
       (if n div 4 div W div scale < ?FY \<and> n div 4 mod W div scale < ?FX
        then channel (getCell heatGrid (n div 4 div W div scale) (n div 4 mod W div scale)) (n mod 4)
        else data ! n)"
    using drawFullCells_nth [OF s fit, of heatGrid ?FY data] by simp_all
  have "?d ! n =
       (if n div 4 div W < ?FY * scale \<and> n div 4 mod W < ?FX * scale
        then channel (Some (heatGrid ! (n div 4 div W div scale) ! (n div 4 mod W div scale))) (n mod 4)
        else data ! n)" if "n < length data" for n
    using px(2) [OF that] s cell by (simp add: div_less_iff_less_mult)
  then show ?thesis using run px(1) by blast
qed

text \<open>
  When both dimensions of the target are multiples of \<open>scale\<close> there is no remainder, and
  a uniform grid of temperature \<open>t\<close> fills every pixel of the target.
\<close>

lemma drawHeatGrid_uniform_exact:
  assumes g: "rect heatGrid rows cols" and rows: "0 < rows" and s: "0 < scale"
    and W: "W = cols * scale" and H: "H = rows * scale"
    and t: "\<forall>i < rows. \<forall>j < cols. heatGrid ! i ! j = t"
    and len: "length data = W * H * 4"
  shows "\<exists>d. drawHeatGrid W H data heatGrid scale = Inr d \<and> length d = W * H * 4
           \<and> (\<forall>n < W * H * 4. d ! n = channel (Some t) (n mod 4))"
proof -
  have tx: "totalCells W scale = cols" and ty: "totalCells H scale = rows"
    using s by (simp_all add: totalCells_def W H)
  have full: "scale \<le> W \<or> scale \<le> H"
    using rows by (simp add: H)
  obtain d where run: "drawHeatGrid W H data heatGrid scale = Inr d"
    and ld: "length d = length data"
    and px: "\<And>n. n < length data \<Longrightarrow> d ! n =
                 (if n div 4 div W < H div scale * scale \<and> n div 4 mod W < W div scale * scale
                  then channel (Some (heatGrid ! (n div 4 div W div scale) ! (n div 4 mod W div scale)))
                         (n mod 4)
                  else data ! n)"
    using drawHeatGrid_pixels [OF g rows s tx ty full, of data] by blast
  have "d ! n = channel (Some t) (n mod 4)" if n: "n < W * H * 4" for n
  proof -
    have p: "n div 4 < W * H" using n by simp
    then have W0: "0 < W" by (cases "W = 0") simp_all
    have y: "n div 4 div W < H"
      using p W0 by (simp add: less_mult_imp_div_less mult.commute)
    have x: "n div 4 mod W < W" using W0 by simp
    have yr: "n div 4 div W div scale < rows"
      using y s by (simp add: H less_mult_imp_div_less)
    have xc: "n div 4 mod W div scale < cols"
      using x s by (simp add: W less_mult_imp_div_less)
    have "heatGrid ! (n div 4 div W div scale) ! (n div 4 mod W div scale) = t"
      using t yr xc by simp
    moreover have "H div scale * scale = H" "W div scale * scale = W"
      using s by (simp_all add: W H)
    ultimately show ?thesis
      using px [of n] n len x y by simp
  qed
  then show ?thesis using run ld len by auto
qed

section \<open>The diffusion step\<close>

text \<open>
  C1, as the claim states it, fails. On the one-row grid \<open>[[1, 1]]\<close> with \<open>gamma = 1\<close>
  the step writes 4 into the first cell and then 7 into the second, because the second
  cell reads the 4 just written as its left neighbour; computed from the values before
  the step, the second cell would be 4.
\<close>

theorem heatDissipationTimeStep_snapshot_counterexample:
  "heatDissipationTimeStep [[1, 1]] 1 = Inr [[4, 7]]
   \<and> snapshotCell 1 [[1, 1]] 0 0 = 4
   \<and> snapshotCell 1 [[1, 1]] 0 1 = 4"
  by (simp add: heatDissipationTimeStep_def stepRows_def stepRow_def stepCell_def getCell_def
      setCell_def rawTemp_def clampTemp_def upt_rec snapshotCell_def stencil_def)

text \<open>
  C1, amended. On a grid of \<open>rows \<ge> 1\<close> rows and \<open>cols\<close> columns the step returns a grid
  of the same shape in which every cell \<open>(i, j)\<close> is
  \<open>max 0 (gamma * (up + down + left + right + 4 * center) - center)\<close>, where \<open>center\<close>, \<open>down\<close>
  and \<open>right\<close> are values of the grid before the step, \<open>up\<close> and \<open>left\<close> are the values that
  the same pass has already written into the row above and the column to the left, and a
  neighbour outside the grid counts as 0.
\<close>

theorem heatDissipationTimeStep_in_place:
  assumes "rect heatGrid rows cols" "0 < rows"
  shows "\<exists>g'. heatDissipationTimeStep heatGrid gamma = Inr g' \<and> rect g' rows cols
           \<and> (\<forall>i < rows. \<forall>j < cols. g' ! i ! j = inPlaceCell gamma heatGrid g' i j)"
  using heatDissipationTimeStep_rect [OF assms, of gamma] stepRows_invariant [OF assms(1), of gamma]
  by (simp add: gridInv_def)

theorem heatDissipationTimeStep_in_place_witness:
  "rect [[1, 1]] 1 2 \<and> (0::nat) < 1
   \<and> (\<exists>g'. heatDissipationTimeStep [[1, 1]] 1 = Inr g' \<and> rect g' 1 2
          \<and> (\<forall>i < 1. \<forall>j < 2. g' ! i ! j = inPlaceCell 1 [[1, 1]] g' i j))"
  using heatDissipationTimeStep_in_place [of "[[1, 1]]" 1 2 1]
  by (simp add: rect_def)

text \<open>
  C4. After one step on a grid of \<open>rows \<ge> 1\<close> rows and \<open>cols\<close> columns, whatever the values
  in it and whatever \<open>gamma\<close>, every cell is at least 0.
\<close>

theorem heatDissipationTimeStep_nonneg:
  assumes "rect heatGrid rows cols" "0 < rows"
  shows "\<exists>g'. heatDissipationTimeStep heatGrid gamma = Inr g' \<and> rect g' rows cols
           \<and> (\<forall>i < rows. \<forall>j < cols. 0 \<le> g' ! i ! j)"
proof -
  let ?g' = "stepRows gamma rows cols heatGrid"
  have inv: "gridInv gamma rows cols heatGrid rows ?g'"
    using assms(1) by (rule stepRows_invariant)
  have "0 \<le> ?g' ! i ! j" if "i < rows" "j < cols" for i j
  proof -
    have "?g' ! i ! j = inPlaceCell gamma heatGrid ?g' i j"
      using inv that by (simp add: gridInv_def)
    then show ?thesis by (simp add: inPlaceCell_def stencil_def)
  qed
  then show ?thesis
    using heatDissipationTimeStep_rect [OF assms, of gamma] inv by (simp add: gridInv_def)
qed

text \<open>
  An instance where the unclamped expression is negative: one cell of value 1 and
  \<open>gamma = 0\<close> give \<open>-1\<close> before the clamp.
\<close>

theorem heatDissipationTimeStep_nonneg_witness:
  "rect [[1]] 1 1 \<and> (0::nat) < 1
   \<and> rawTemp 0 (Some 0) (Some 0) (Some 0) (Some 0) (getCell [[1]] 0 0) = Some (- 1)
   \<and> (\<exists>g'. heatDissipationTimeStep [[1]] 0 = Inr g' \<and> rect g' 1 1
          \<and> (\<forall>i < 1. \<forall>j < 1. 0 \<le> g' ! i ! j))"
  using heatDissipationTimeStep_nonneg [of "[[1]]" 1 1 0]
  by (simp add: rect_def rawTemp_def getCell_def)

text \<open>
  C8. A grid of \<open>rows \<ge> 1\<close> rows and \<open>cols\<close> columns whose cells are all 0 is returned
  unchanged by the step, for every \<open>gamma\<close>.
\<close>

theorem heatDissipationTimeStep_zero_fixed:
  assumes "rect heatGrid rows cols" "0 < rows" "\<forall>r \<in> set heatGrid. \<forall>v \<in> set r. v = 0"
  shows "heatDissipationTimeStep heatGrid gamma = Inr heatGrid"
  using assms heatDissipationTimeStep_rect [OF assms(1,2), of gamma]
    all_zero_replicate [OF assms(1,3)] stepRows_zero [of gamma rows cols]
  by simp

theorem heatDissipationTimeStep_zero_fixed_witness:
  "rect [[0, 0, 0], [0, 0, 0]] 2 3 \<and> (0::nat) < 2
   \<and> set (concat [[0, 0, 0], [0, 0, 0::real]]) = {0}
   \<and> heatDissipationTimeStep [[0, 0, 0], [0, 0, 0]] 7 = Inr [[0, 0, 0], [0, 0, 0]]"
  using heatDissipationTimeStep_zero_fixed [of "[[0, 0, 0], [0, 0, 0]]" 2 3 7]
  by (simp add: rect_def)

section \<open>Initialisation\<close>

text \<open>
  C7. \<open>initializeHeatGrid\<close> fails, and then with the invalid-dimensions error, if and only
  if \<open>rows\<close> is outside 1..1080 or \<open>cols\<close> is outside 1..1920; each bound alone is enough
  to fail, in particular \<open>rows = 0\<close>, \<open>rows = 1081\<close>, \<open>cols = 0\<close> and \<open>cols = 1921\<close>.
\<close>

theorem initializeHeatGrid_fails_iff:
  "((\<exists>e. initializeHeatGrid rows cols method beta alpha = Inl e)
      \<longleftrightarrow> rows \<notin> {1..1080} \<or> cols \<notin> {1..1920})
   \<and> ((\<exists>e. initializeHeatGrid rows cols method beta alpha = Inl e)
      \<longleftrightarrow> initializeHeatGrid rows cols method beta alpha = Inl InvalidRowOrColumnCount)
   \<and> initializeHeatGrid 0 cols method beta alpha = Inl InvalidRowOrColumnCount
   \<and> initializeHeatGrid 1081 cols method beta alpha = Inl InvalidRowOrColumnCount
   \<and> initializeHeatGrid rows 0 method beta alpha = Inl InvalidRowOrColumnCount
   \<and> initializeHeatGrid rows 1921 method beta alpha = Inl InvalidRowOrColumnCount"
  by (auto simp: initializeHeatGrid_def Let_def)

theorem initializeHeatGrid_fails_iff_witness:
  "(\<exists>e. initializeHeatGrid 1080 1921 Zeros 1 255 = Inl e)
   \<and> \<not> (\<exists>e. initializeHeatGrid 1080 1920 Exp 1 255 = Inl e)
   \<and> \<not> (\<exists>e. initializeHeatGrid 1 1 Zeros 1 255 = Inl e)"
  using initializeHeatGrid_fails_iff [of 1080 1921 Zeros 1 255]
    initializeHeatGrid_fails_iff [of 1080 1920 Exp 1 255]
    initializeHeatGrid_fails_iff [of 1 1 Zeros 1 255]
  by simp

text \<open>
  C6. For \<open>rows\<close> in 1..1080 and \<open>cols\<close> in 1..1920 the radial initialisation returns a
  grid of that shape whose cell \<open>(i, j)\<close> is
  \<open>alpha * exp (- beta * ((i - midY)\<^sup>2 + (j - midX)\<^sup>2))\<close> with \<open>midY = rows div 2\<close> and
  \<open>midX = cols div 2\<close>. The cell \<open>(midY, midX)\<close> is \<open>alpha\<close>. For \<open>beta \<ge> 0\<close> and
  \<open>alpha \<ge> 0\<close> a cell at a larger or equal squared distance from the centre holds a
  smaller or equal value.
\<close>

theorem initializeHeatGrid_radial:
  assumes "1 \<le> rows" "rows \<le> 1080" "1 \<le> cols" "cols \<le> 1920"
  shows "\<exists>g. initializeHeatGrid rows cols Exp beta alpha = Inr g
           \<and> rect g (nat rows) (nat cols)
           \<and> (\<forall>i < nat rows. \<forall>j < nat cols.
                 g ! i ! j = alpha * exp (- beta * real_of_int ((int i - rows div 2)\<^sup>2 + (int j - cols div 2)\<^sup>2)))
           \<and> g ! nat (rows div 2) ! nat (cols div 2) = alpha
           \<and> (0 \<le> beta \<and> 0 \<le> alpha \<longrightarrow>
                (\<forall>i < nat rows. \<forall>j < nat cols. \<forall>i' < nat rows. \<forall>j' < nat cols.
                   sqDist (nat rows) (nat cols) i j \<le> sqDist (nat rows) (nat cols) i' j'
                   \<longrightarrow> g ! i' ! j' \<le> g ! i ! j))"
proof -
  let ?g = "expFill (nat rows) (nat cols) beta alpha (zeroGrid (nat rows) (nat cols))"
  have init: "initializeHeatGrid rows cols Exp beta alpha = Inr ?g"
    using assms by (simp add: initializeHeatGrid_def)
  have r: "rect ?g (nat rows) (nat cols)"
    and cells: "\<And>i j. i < nat rows \<Longrightarrow> j < nat cols \<Longrightarrow>
       ?g ! i ! j = alpha * exp (- beta * real_of_int (sqDist (nat rows) (nat cols) i j))"
    using expFill_cells [of "zeroGrid (nat rows) (nat cols)" "nat rows" "nat cols" beta alpha]
    by (simp_all add: zeroGrid_replicate rect_replicate)
  have sq: "sqDist (nat rows) (nat cols) i j = (int i - rows div 2)\<^sup>2 + (int j - cols div 2)\<^sup>2" for i j
    using assms by (simp add: sqDist_def)
  have mid: "nat (rows div 2) < nat rows" "nat (cols div 2) < nat cols"
    using assms by simp_all
  have centre: "?g ! nat (rows div 2) ! nat (cols div 2) = alpha"
    using assms by (simp add: cells [OF mid] sq)
  have mono: "?g ! i' ! j' \<le> ?g ! i ! j"
    if "0 \<le> beta" "0 \<le> alpha" "i < nat rows" "j < nat cols" "i' < nat rows" "j' < nat cols"
      "sqDist (nat rows) (nat cols) i j \<le> sqDist (nat rows) (nat cols) i' j'" for i j i' j'
  proof -
    have "beta * real_of_int (sqDist (nat rows) (nat cols) i j)
            \<le> beta * real_of_int (sqDist (nat rows) (nat cols) i' j')"
      using that(1,7) by (intro mult_left_mono) simp_all
    then have "exp (- beta * real_of_int (sqDist (nat rows) (nat cols) i' j'))
            \<le> exp (- beta * real_of_int (sqDist (nat rows) (nat cols) i j))"
      by simp
    then show ?thesis
      using that by (simp add: cells mult_left_mono)
  qed
  show ?thesis
    using init r centre mono by (intro exI [of _ ?g]) (simp add: cells sq)
qed

theorem initializeHeatGrid_radial_witness:
  "(1::int) \<le> 3 \<and> (3::int) \<le> 1080 \<and> (1::int) \<le> 5 \<and> (5::int) \<le> 1920
   \<and> (\<exists>g. initializeHeatGrid 3 5 Exp (1 / 10) 255 = Inr g
         \<and> rect g 3 5
         \<and> g ! 1 ! 2 = 255
         \<and> g ! 0 ! 0 = 255 * exp (- (1 / 10) * 5)
         \<and> g ! 0 ! 0 \<le> g ! 1 ! 4)"
proof -
  obtain g where g: "initializeHeatGrid 3 5 Exp (1 / 10) 255 = Inr g"
    and r: "rect g (nat 3) (nat 5)"
    and cells: "\<forall>i < nat 3. \<forall>j < nat 5.
        g ! i ! j = 255 * exp (- (1 / 10) * real_of_int ((int i - 3 div 2)\<^sup>2 + (int j - 5 div 2)\<^sup>2))"
    and centre: "g ! nat (3 div 2) ! nat (5 div 2) = 255"
    and mono: "(0::real) \<le> 1 / 10 \<and> (0::real) \<le> 255 \<longrightarrow>
        (\<forall>i < nat 3. \<forall>j < nat 5. \<forall>i' < nat 3. \<forall>j' < nat 5.
           sqDist (nat 3) (nat 5) i j \<le> sqDist (nat 3) (nat 5) i' j' \<longrightarrow> g ! i' ! j' \<le> g ! i ! j)"
    using initializeHeatGrid_radial [of 3 5 "1 / 10" 255] by auto
  have "g ! 0 ! 0 = 255 * exp (- (1 / 10) * 5)"
    using cells by simp
  moreover have "g ! 0 ! 0 \<le> g ! 1 ! 4"
  proof -
    have "sqDist (nat 3) (nat 5) 1 4 \<le> sqDist (nat 3) (nat 5) 0 0"
      by (simp add: sqDist_def)
    then show ?thesis using mono by simp
  qed
  ultimately show ?thesis using g r centre by simp
qed




section \<open>Rendering\<close>

text \<open>
  C3. For a non-empty grid and \<open>scale \<ge> 1\<close>, \<open>drawHeatGrid\<close> fails exactly when the
  number of cells along the width of the target, \<open>floor(W/scale)\<close> plus one if \<open>W\<close> is not a
  multiple of \<open>scale\<close>, differs from the number of columns, or the like number along the
  height differs from the number of rows; every failure is one of the two mismatch
  errors. A grid of 3 rows and 3 columns on a 10 by 10 target is drawn at \<open>scale = 4\<close> and
  refused at \<open>scale = 5\<close>.
\<close>

theorem drawHeatGrid_fails_iff:
  assumes "heatGrid \<noteq> []" "0 < scale"
  shows "((\<exists>e. drawHeatGrid W H data heatGrid scale = Inl e) \<longleftrightarrow>
            totalCells W scale \<noteq> length (hd heatGrid) \<or> totalCells H scale \<noteq> length heatGrid)
       \<and> (\<forall>e. drawHeatGrid W H data heatGrid scale = Inl e \<longrightarrow> isGridTargetMismatch e)
       \<and> (length heatGrid = 3 \<and> length (hd heatGrid) = 3 \<longrightarrow>
            (\<exists>d. drawHeatGrid 10 10 data heatGrid 4 = Inr d)
            \<and> drawHeatGrid 10 10 data heatGrid 5 = Inl MismatchInCanvasAndGridSizes)"
proof -
  obtain row0 rest where c: "heatGrid = row0 # rest"
    using assms(1) by (cases heatGrid) auto
  have le: "totalCells W scale \<le> W" "totalCells H scale \<le> H"
    using assms(2) by (rule totalCells_le)+
  have t: "(if W mod scale = 0 then W div scale else W div scale + 1) = totalCells W scale"
    "(if H mod scale = 0 then H div scale else H div scale + 1) = totalCells H scale"
    by (simp_all add: totalCells_def)
  have 1: "(\<exists>e. drawHeatGrid W H data heatGrid scale = Inl e) \<longleftrightarrow>
            totalCells W scale \<noteq> length (hd heatGrid) \<or> totalCells H scale \<noteq> length heatGrid"
    using assms(2) le unfolding drawHeatGrid_def c by (auto simp: Let_def t)
  have 2: "\<forall>e. drawHeatGrid W H data heatGrid scale = Inl e \<longrightarrow> isGridTargetMismatch e"
    unfolding drawHeatGrid_def c by (auto simp: Let_def isGridTargetMismatch_def split: if_splits)
  have 3: "length heatGrid = 3 \<and> length (hd heatGrid) = 3 \<longrightarrow>
            (\<exists>d. drawHeatGrid 10 10 data heatGrid 4 = Inr d)
            \<and> drawHeatGrid 10 10 data heatGrid 5 = Inl MismatchInCanvasAndGridSizes"
    unfolding drawHeatGrid_def c by (simp add: Let_def)
  show ?thesis using 1 2 3 by blast
qed

theorem drawHeatGrid_fails_iff_witness:
  "[[1, 2, 3], [4, 5, 6], [7, 8, 9::real]] \<noteq> [] \<and> (0::nat) < 4 \<and> (0::nat) < 5
   \<and> totalCells 10 4 = 3 \<and> totalCells 10 5 = 2
   \<and> \<not> (\<exists>e. drawHeatGrid 10 10 (replicate 400 0) [[1, 2, 3], [4, 5, 6], [7, 8, 9]] 4 = Inl e)
   \<and> (\<exists>e. drawHeatGrid 10 10 (replicate 400 0) [[1, 2, 3], [4, 5, 6], [7, 8, 9]] 5 = Inl e)"
  using drawHeatGrid_fails_iff [of "[[1, 2, 3], [4, 5, 6], [7, 8, 9]]" 4 10 10 "replicate 400 0"]
    drawHeatGrid_fails_iff [of "[[1, 2, 3], [4, 5, 6], [7, 8, 9]]" 5 10 10 "replicate 400 0"]
  by (simp add: totalCells_def)

text \<open>
  C2 does not hold of the code. A uniform 2 by 2 grid of temperature 100 on a 3 by 3
  target at \<open>scale = 2\<close> passes both checks (one full cell and one remainder cell along
  each axis), and only the block of the one full cell is drawn: the pixels of the third
  column and of the third row keep what the buffer held before, here 0 in all four
  channels. The loop over the remainder starts its cell index at \<open>fullCellsY * scale\<close>, a
  pixel coordinate, so for \<open>scale = 2\<close> it starts at row 2 of a grid of 2 rows and never runs.
  Lemma \<open>drawHeatGrid_pixels\<close> shows the same for every target with a full cell along one
  axis, and lemma \<open>drawHeatGrid_uniform_exact\<close> that a target without remainder is filled.
\<close>

theorem drawHeatGrid_remainder_unwritten:
  "drawHeatGrid 3 3 (replicate 36 0) [[100, 100], [100, 100]] 2 = Inr
     [100, 20, 15, 255,   100, 20, 15, 255,   0, 0, 0, 0,
      100, 20, 15, 255,   100, 20, 15, 255,   0, 0, 0, 0,
      0, 0, 0, 0,         0, 0, 0, 0,         0, 0, 0, 0]"
  by code_simp

text \<open>
  In that run the red channel of pixel \<open>(x, y) = (0, 0)\<close>, at index 0, is 100, and the red
  channel of pixel \<open>(2, 0)\<close>, at index \<open>0 * 3 * 4 + 2 * 4 = 8\<close>, is still 0.
\<close>

theorem drawHeatGrid_remainder_unwritten_witness:
  "\<exists>d. drawHeatGrid 3 3 (replicate 36 0) [[100, 100], [100, 100]] 2 = Inr d
        \<and> length d = 36 \<and> d ! 0 = 100 \<and> d ! 8 = 0"
  using drawHeatGrid_remainder_unwritten by simp

section \<open>Pointer position and added heat\<close>

text \<open>
  C9. For every pointer position and every \<open>scale \<ge> 1\<close>, \<open>canvasXYToGridXY\<close> returns the
  column \<open>floor((px - 1) / scale)\<close> and the row \<open>floor((py - 1) / scale)\<close>, whatever their
  range, and the position \<open>(1, 1)\<close> is mapped to \<open>(0, 0)\<close>.
\<close>

theorem canvasXYToGridXY_floor:
  assumes "0 < scale"
  shows "canvasXYToGridXY px py scale
           = Some (\<lfloor>(px - 1) / real scale\<rfloor>, \<lfloor>(py - 1) / real scale\<rfloor>)
       \<and> canvasXYToGridXY 1 1 scale = Some (0, 0)"
  using assms by (simp add: canvasXYToGridXY_def)

text \<open>Positions left of the origin and far beyond any canvas are mapped, not clamped.\<close>

theorem canvasXYToGridXY_floor_witness:
  "(0::nat) < 10
   \<and> canvasXYToGridXY 0 100001 10 = Some (- 1, 10000)
   \<and> canvasXYToGridXY 1 1 10 = Some (0, 0)"
  using canvasXYToGridXY_floor [of 10 0 100001]
  by simp

text \<open>
  C5, as the claim states it, fails at a corner of a grid with a single row or a single
  column. In the grid of one cell, that cell is a corner, and adding heat there raises
  one cell, not three.
\<close>

theorem addHeatOnMouseClick_corner_counterexample:
  "isCorner 1 1 0 0
   \<and> addHeatOnMouseClick 1 1 [[0]] 0 0 1 = Inr [[1]]
   \<and> card (increasedCells [[0]] [[1]] 1 1 1) = 1"
  by (simp add: addHeatOnMouseClick_def thenE_def addCell_def getCell_def setCell_def
      isCorner_def increasedCells_def upt_rec)

text \<open>
  C5, amended. On a grid of \<open>rows\<close> rows and \<open>cols\<close> columns, adding heat at a cell inside
  the grid raises that cell and each of its cardinal neighbours inside the grid by
  \<open>heat\<close> and leaves every other cell as it was. For \<open>heat \<noteq> 0\<close> the cells raised are
  exactly 5 at an interior cell, and exactly 3 at a corner cell of a grid with at least
  two rows and two columns. At a position outside the grid the grid is returned unchanged
  and nothing fails.
\<close>

theorem addHeatOnMouseClick_cross:
  assumes g: "rect heatGrid (nat rows) (nat cols)"
  shows "(0 \<le> gridX \<and> gridX < cols \<and> 0 \<le> gridY \<and> gridY < rows \<longrightarrow>
           (\<exists>g'. addHeatOnMouseClick rows cols heatGrid gridX gridY heat = Inr g'
              \<and> rect g' (nat rows) (nat cols)
              \<and> (\<forall>i < nat rows. \<forall>j < nat cols.
                    g' ! i ! j = heatGrid ! i ! j + (if inCross gridY gridX i j then heat else 0))
              \<and> (heat \<noteq> 0 \<and> isInterior rows cols gridY gridX \<longrightarrow>
                    card (increasedCells heatGrid g' heat (nat rows) (nat cols)) = 5)
              \<and> (heat \<noteq> 0 \<and> isCorner rows cols gridY gridX \<and> 2 \<le> rows \<and> 2 \<le> cols \<longrightarrow>
                    card (increasedCells heatGrid g' heat (nat rows) (nat cols)) = 3)))
       \<and> (\<not> (0 \<le> gridX \<and> gridX < cols \<and> 0 \<le> gridY \<and> gridY < rows) \<longrightarrow>
            addHeatOnMouseClick rows cols heatGrid gridX gridY heat = Inr heatGrid)"
proof (intro conjI impI)
  assume "\<not> (0 \<le> gridX \<and> gridX < cols \<and> 0 \<le> gridY \<and> gridY < rows)"
  then show "addHeatOnMouseClick rows cols heatGrid gridX gridY heat = Inr heatGrid"
    by (auto simp: addHeatOnMouseClick_def)
next
  assume b: "0 \<le> gridX \<and> gridX < cols \<and> 0 \<le> gridY \<and> gridY < rows"
  define x y r c where "x = nat gridX" and "y = nat gridY" and "r = nat rows" and "c = nat cols"
  have eq: "gridX = int x" "gridY = int y" "rows = int r" "cols = int c"
    and lt: "y < r" "x < c"
    using b by (simp_all add: x_def y_def r_def c_def)
  obtain g' where run: "addHeatOnMouseClick rows cols heatGrid gridX gridY heat = Inr g'"
    and r': "rect g' r c"
    and cells: "\<forall>i < r. \<forall>j < c. g' ! i ! j = heatGrid ! i ! j + (if inCross gridY gridX i j then heat else 0)"
    using addHeat_nat [of heatGrid r c y x heat] g lt unfolding eq by auto
  have inc: "increasedCells heatGrid g' heat r c = {(i, j). i < r \<and> j < c \<and> inCross (int y) (int x) i j}"
    if "heat \<noteq> 0"
    using increasedCells_cross [OF cells that] by (simp add: eq)
  have five: "card (increasedCells heatGrid g' heat r c) = 5"
    if "heat \<noteq> 0 \<and> isInterior rows cols gridY gridX"
    using that inc cross_interior [of y r x c] by (simp add: isInterior_def eq)
  have three: "card (increasedCells heatGrid g' heat r c) = 3"
    if "heat \<noteq> 0 \<and> isCorner rows cols gridY gridX \<and> 2 \<le> rows \<and> 2 \<le> cols"
  proof -
    have "y = 0 \<or> y + 1 = r" "x = 0 \<or> x + 1 = c" "2 \<le> r" "2 \<le> c"
      using that unfolding isCorner_def eq by auto
    then show ?thesis using that inc cross_corner [of r c y x] by simp
  qed
  show "\<exists>g'. addHeatOnMouseClick rows cols heatGrid gridX gridY heat = Inr g'
              \<and> rect g' (nat rows) (nat cols)
              \<and> (\<forall>i < nat rows. \<forall>j < nat cols.
                    g' ! i ! j = heatGrid ! i ! j + (if inCross gridY gridX i j then heat else 0))
              \<and> (heat \<noteq> 0 \<and> isInterior rows cols gridY gridX \<longrightarrow>
                    card (increasedCells heatGrid g' heat (nat rows) (nat cols)) = 5)
              \<and> (heat \<noteq> 0 \<and> isCorner rows cols gridY gridX \<and> 2 \<le> rows \<and> 2 \<le> cols \<longrightarrow>
                    card (increasedCells heatGrid g' heat (nat rows) (nat cols)) = 3)"
    using run r' cells five three unfolding r_def c_def by blast
qed

theorem addHeatOnMouseClick_cross_witness:
  "rect [[0, 0, 0], [0, 0, 0], [0, 0, 0]] (nat 3) (nat 3)
   \<and> isInterior 3 3 1 1 \<and> isCorner 3 3 2 0 \<and> (8::real) \<noteq> 0
   \<and> (\<exists>g'. addHeatOnMouseClick 3 3 [[0, 0, 0], [0, 0, 0], [0, 0, 0]] 1 1 8 = Inr g'
          \<and> card (increasedCells [[0, 0, 0], [0, 0, 0], [0, 0, 0]] g' 8 (nat 3) (nat 3)) = 5)
   \<and> (\<exists>g'. addHeatOnMouseClick 3 3 [[0, 0, 0], [0, 0, 0], [0, 0, 0]] 0 2 8 = Inr g'
          \<and> card (increasedCells [[0, 0, 0], [0, 0, 0], [0, 0, 0]] g' 8 (nat 3) (nat 3)) = 3)
   \<and> addHeatOnMouseClick 3 3 [[0, 0, 0], [0, 0, 0], [0, 0, 0]] 3 1 8
        = Inr [[0, 0, 0], [0, 0, 0], [0, 0, 0]]"
proof -
  have r: "rect [[0, 0, 0], [0, 0, 0], [0, 0, 0]] (nat 3) (nat 3)"
    by (simp add: rect_def)
  have i: "isInterior 3 3 1 1" and c: "isCorner 3 3 2 0"
    by (simp_all add: isInterior_def isCorner_def)
  show ?thesis
    using r i c
      addHeatOnMouseClick_cross [OF r, of 1 1 8]
      addHeatOnMouseClick_cross [OF r, of 0 2 8]
      addHeatOnMouseClick_cross [OF r, of 3 1 8]
    by auto
qed

end
